theory Spec2Isabelle
  imports Main "HOL-Library.Word" "HOL-Library.DAList" "HOL-Library.Multiset"
begin

section \<open>The replicated state of gokv's cluster delegate\<close>

text \<open>
  This theory embeds the delegate of package \<open>cluster\<close> (\<open>src/unnamed/part_001\<close>, the
  file that declares \<open>type Delegate struct\<close>) together with the generated protobuf types
  of \<open>internal/internalpb/gokv.pb.go\<close>. Every operation of the delegate holds the
  delegate's lock from its first to its last statement, so each one is a function from the
  state before the call to the state after it. The wall clock is read once per call; that
  reading is the argument \<open>now\<close>.
\<close>

subsection \<open>Wall-clock values of the Go standard library\<close>

text \<open>
  \<open>int64\<close> and \<open>int32\<close> are \<open>64 word\<close> and \<open>32 word\<close>, read as two's complement
  by \<open>sint\<close>. The quotient \<open>a / b\<close> of Go rounds towards zero; it is \<open>quo\<close>.
\<close>

type_synonym int64 = "64 word"
type_synonym int32 = "32 word"
type_synonym byte = "8 word"

definition quo :: "int \<Rightarrow> int \<Rightarrow> int" where
  "quo a b = (if (a < 0) = (b < 0) then \<bar>a\<bar> div \<bar>b\<bar> else - (\<bar>a\<bar> div \<bar>b\<bar>))"

text \<open>\<open>timestamppb.Timestamp\<close> and \<open>durationpb.Duration\<close>: seconds and nanoseconds.\<close>

record Timestamp =
  Seconds :: int64
  Nanos :: int32

record Duration =
  DSeconds :: int64
  DNanos :: int32

text \<open>
  A \<open>time.Time\<close> without monotonic reading: the seconds since the Unix epoch and the
  nanoseconds within that second. \<open>UTC()\<close> changes the location only, never the instant,
  so it does not appear below.
\<close>

record Time =
  sec :: int64
  nsec :: int32

text \<open>\<open>time.Unix(sec, nsec)\<close>: nanoseconds outside \<open>[0, 1e9)\<close> are carried into the seconds.\<close>

definition time_Unix :: "int64 \<Rightarrow> int64 \<Rightarrow> Time" where
  "time_Unix s ns =
     (if sint ns < 0 \<or> 1000000000 \<le> sint ns then
        let n = word_of_int (quo (sint ns) 1000000000) :: int64;
            s1 = s + n;
            ns1 = ns - n * 1000000000
        in if sint ns1 < 0 then \<lparr>sec = s1 - 1, nsec = ucast (ns1 + 1000000000)\<rparr>
           else \<lparr>sec = s1, nsec = ucast ns1\<rparr>
      else \<lparr>sec = s, nsec = ucast ns\<rparr>)"

text \<open>
  \<open>(*Timestamp).AsTime()\<close> is \<open>time.Unix(x.GetSeconds(), int64(x.GetNanos())).UTC()\<close>; the
  getters of a nil timestamp return 0.
\<close>

definition AsTime :: "Timestamp option \<Rightarrow> Time" where
  "AsTime x = (case x of None \<Rightarrow> time_Unix 0 0
                        | Some ts \<Rightarrow> time_Unix (Seconds ts) (scast (Nanos ts)))"

text \<open>\<open>Time.Unix()\<close>: the seconds since the epoch, an \<open>int64\<close> read as an integer.\<close>

definition Unix :: "Time \<Rightarrow> int" where
  "Unix t = sint (sec t)"

text \<open>\<open>timestamppb.New(t)\<close>.\<close>

definition timestamppb_New :: "Time \<Rightarrow> Timestamp" where
  "timestamppb_New t = \<lparr>Seconds = sec t, Nanos = nsec t\<rparr>"

text \<open>\<open>durationpb.New(d)\<close> of a \<open>time.Duration\<close>, an \<open>int64\<close> count of nanoseconds.\<close>

definition durationpb_New :: "int64 \<Rightarrow> Duration" where
  "durationpb_New d =
     (let secs = word_of_int (quo (sint d) 1000000000) :: int64;
          nanos = d - secs * 1000000000
      in \<lparr>DSeconds = secs, DNanos = ucast nanos\<rparr>)"

subsection \<open>The protobuf messages\<close>

text \<open>
  A Go map is an association list with distinct keys (\<open>('k, 'v) alist\<close>); a nil map and an
  empty map read the same and are both \<open>DAList.empty\<close>. A \<open>range\<close> over the map visits
  the pairs of the list one after the other. Go leaves the order of a \<open>range\<close> open. What
  the loops over the entries of a partition compute depends on the pairs only, not on their
  order (\<open>lookup_merge_fold\<close>, \<open>get_entries_eq\<close>, \<open>exists_entries_eq\<close>, \<open>put_hit_iff\<close> and
  \<open>delete_hit_iff\<close> below), and no theorem depends on it. The one \<open>range\<close> whose
  order shows in the state, the rebuild of the node states in \<open>MergeRemoteState\<close>, takes
  its order as a parameter.
\<close>

record Entry =
  Key :: string
  Value :: "byte list"
  Archived :: "bool option"
  LastUpdatedTime :: "Timestamp option"
  Expiry :: "Duration option"

record NodeState =
  NodeId :: string
  Entries :: "(string, Entry) alist"

record FSM =
  NodeStates :: "NodeState list"

record NodeMeta =
  Name :: string
  Host :: string
  Port :: "32 word"
  DiscoveryPort :: "32 word"
  CreationTime :: "Timestamp option"

definition GetArchived :: "Entry \<Rightarrow> bool" where
  "GetArchived x = (case Archived x of None \<Rightarrow> False | Some b \<Rightarrow> b)"

subsection \<open>The delegate\<close>

record Delegate =
  nodeMeta :: NodeMeta
  fsm :: FSM
  me :: string

datatype error = ErrKeyNotFound

text \<open>\<open>expired\<close>; \<open>now\<close> is the reading of \<open>time.Now()\<close> at the call.\<close>

definition expired :: "Time \<Rightarrow> Entry \<Rightarrow> bool" where
  "expired now entry =
     (if Expiry entry = None then False
      else let expiration = Unix (AsTime (LastUpdatedTime entry))
           in if expiration \<le> 0 then False
              else Unix now > expiration)"

text \<open>\<open>setExpiry\<close>.\<close>

definition setExpiry :: "int64 \<Rightarrow> Duration option" where
  "setExpiry expiration = (if 0 < sint expiration then Some (durationpb_New expiration) else None)"


text \<open>\<open>newDelegate\<close>: one partition, the node's own, with an empty map.\<close>

definition newDelegate :: "string \<Rightarrow> NodeMeta \<Rightarrow> Delegate" where
  "newDelegate name meta =
     \<lparr>nodeMeta = meta,
      fsm = \<lparr>NodeStates = [\<lparr>NodeId = name, Entries = DAList.empty\<rparr>]\<rparr>,
      me = name\<rparr>"

text \<open>
  \<open>NodeMeta\<close> and \<open>LocalState\<close> hand the message to \<open>proto.Marshal\<close>, a function of the
  protobuf library, taken as a parameter here; its error is dropped by the source. The
  \<open>join\<close> flag of \<open>LocalState\<close> and of \<open>MergeRemoteState\<close> is never read and is left out.
\<close>

definition Delegate_NodeMeta :: "(NodeMeta \<Rightarrow> byte list) \<Rightarrow> int \<Rightarrow> Delegate \<Rightarrow> byte list" where
  "Delegate_NodeMeta marshal limit d = (let bytea = marshal (nodeMeta d) in bytea)"

definition LocalState :: "(FSM \<Rightarrow> byte list) \<Rightarrow> Delegate \<Rightarrow> byte list" where
  "LocalState marshal d = (let bytea = marshal (fsm d) in bytea)"

subsection \<open>MergeRemoteState\<close>

text \<open>The whole-second Unix time of an entry's last update, as the merge reads it.\<close>

definition lastUpdatedUnix :: "Entry \<Rightarrow> int" where
  "lastUpdatedUnix e = Unix (AsTime (LastUpdatedTime e))"

text \<open>The map from node id to entries built from the local node states.\<close>

definition index_local :: "NodeState list \<Rightarrow> (string, (string, Entry) alist) alist" where
  "index_local nss =
     fold (\<lambda>nodeState entries. DAList.update (NodeId nodeState) (Entries nodeState) entries)
       nss DAList.empty"

text \<open>One round of the loop over the incoming entries of a partition.\<close>

definition merge_step :: "string \<times> Entry \<Rightarrow> (string, Entry) alist \<Rightarrow> (string, Entry) alist" where
  "merge_step = (\<lambda>(key, remoteEntry) localEntries.
     case DAList.lookup localEntries key of
       None \<Rightarrow> DAList.update key remoteEntry localEntries
     | Some localEntry \<Rightarrow>
         if lastUpdatedUnix localEntry > lastUpdatedUnix remoteEntry then localEntries
         else DAList.update key remoteEntry localEntries)"

definition merge_entries :: "(string, Entry) alist \<Rightarrow> (string, Entry) alist \<Rightarrow> (string, Entry) alist" where
  "merge_entries remoteEntries localEntries =
     fold merge_step (DAList.impl_of remoteEntries) localEntries"

text \<open>One round of the loop over the remote node states.\<close>

definition merge_node ::
  "NodeState \<Rightarrow> (string, (string, Entry) alist) alist \<Rightarrow> (string, (string, Entry) alist) alist" where
  "merge_node remoteNodeState entries =
     (case DAList.lookup entries (NodeId remoteNodeState) of
        None \<Rightarrow> DAList.update (NodeId remoteNodeState) (Entries remoteNodeState) entries
      | Some localEntries \<Rightarrow>
          let localEntries1 = (if size localEntries = 0 then DAList.empty else localEntries)
          in DAList.update (NodeId remoteNodeState)
               (merge_entries (Entries remoteNodeState) localEntries1) entries)"

text \<open>
  The node states are rebuilt by a \<open>range\<close> over the map \<open>entries\<close>, whose order Go leaves
  open and which decides what \<open>Get\<close> and \<open>Exists\<close> find first. The order of that one
  traversal is the parameter \<open>rank\<close>: node ids are visited by increasing rank.
\<close>

definition range_order :: "(string \<Rightarrow> nat) \<Rightarrow> (string, 'v) alist \<Rightarrow> (string \<times> 'v) list" where
  "range_order rank m = sort_key (\<lambda>(k, v). rank k) (DAList.impl_of m)"

text \<open>
  \<open>remoteFSM\<close> is the message that \<open>proto.Unmarshal\<close> leaves in \<open>new(internalpb.FSM)\<close> for
  the bytes received; the source drops the error, so the merge runs on whatever was decoded.
\<close>

definition MergeRemoteState :: "(string \<Rightarrow> nat) \<Rightarrow> FSM \<Rightarrow> Delegate \<Rightarrow> Delegate" where
  "MergeRemoteState rank remoteFSM d =
     (let localFSM = fsm d;
          entries = index_local (NodeStates localFSM);
          entries1 = fold merge_node (NodeStates remoteFSM) entries;
          nodeStates = map (\<lambda>(k, v). \<lparr>NodeId = k, Entries = v\<rparr>) (range_order rank entries1)
      in d\<lparr>fsm := (fsm d)\<lparr>NodeStates := nodeStates\<rparr>\<rparr>)"

subsection \<open>Put\<close>

text \<open>The inner loop of the first pass: is there a round with \<open>k == key\<close>.\<close>

fun put_hit :: "string \<Rightarrow> string list \<Rightarrow> bool" where
  "put_hit key [] = False"
| "put_hit key (k # ks) = (if k = key then True else put_hit key ks)"

text \<open>The first pass; the \<open>break\<close> leaves the inner loop only, so every node state is visited.\<close>

fun put_overwrite :: "string \<Rightarrow> Entry \<Rightarrow> NodeState list \<Rightarrow> bool \<Rightarrow> NodeState list \<times> bool" where
  "put_overwrite key e [] keyExists = ([], keyExists)"
| "put_overwrite key e (nodeState # rest) keyExists =
     (if put_hit key (map fst (DAList.impl_of (Entries nodeState))) then
        (let (rest1, keyExists1) = put_overwrite key e rest True
         in (nodeState\<lparr>Entries := DAList.update key e (Entries nodeState)\<rparr> # rest1, keyExists1))
      else
        (let (rest1, keyExists1) = put_overwrite key e rest keyExists
         in (nodeState # rest1, keyExists1)))"

text \<open>The second pass: the first node state whose id is \<open>d.me\<close> receives the entry.\<close>

fun put_insert :: "string \<Rightarrow> string \<Rightarrow> Entry \<Rightarrow> NodeState list \<Rightarrow> NodeState list" where
  "put_insert self key e [] = []"
| "put_insert self key e (nodeState # rest) =
     (if NodeId nodeState = self then
        (if size (Entries nodeState) = 0
         then nodeState\<lparr>Entries := DAList.update key e DAList.empty\<rparr> # rest
         else nodeState\<lparr>Entries := DAList.update key e (Entries nodeState)\<rparr> # rest)
      else nodeState # put_insert self key e rest)"

definition Put :: "Time \<Rightarrow> string \<Rightarrow> byte list \<Rightarrow> int64 \<Rightarrow> Delegate \<Rightarrow> Delegate" where
  "Put now key val expiration d =
     (let timestamp = timestamppb_New now;
          expiry = setExpiry expiration;
          e = \<lparr>Key = key, Value = val, Archived = None,
               LastUpdatedTime = Some timestamp, Expiry = expiry\<rparr>;
          (nodeStates, keyExists) = put_overwrite key e (NodeStates (fsm d)) False
      in if keyExists then d\<lparr>fsm := (fsm d)\<lparr>NodeStates := nodeStates\<rparr>\<rparr>
         else d\<lparr>fsm := (fsm d)\<lparr>NodeStates := put_insert (me d) key e nodeStates\<rparr>\<rparr>)"

subsection \<open>Get, Exists and List\<close>

text \<open>
  The inner loops return at the round with \<open>k == key\<close>; \<open>None\<close> stands for an inner loop
  that ended without returning, after which the outer loop goes on.
\<close>

fun get_entries :: "Time \<Rightarrow> string \<Rightarrow> (string \<times> Entry) list \<Rightarrow> (error + Entry) option" where
  "get_entries now key [] = None"
| "get_entries now key ((k, entry) # rest) =
     (if k = key then (if expired now entry then Some (Inl ErrKeyNotFound) else Some (Inr entry))
      else get_entries now key rest)"

fun get_nodes :: "Time \<Rightarrow> string \<Rightarrow> NodeState list \<Rightarrow> error + Entry" where
  "get_nodes now key [] = Inl ErrKeyNotFound"
| "get_nodes now key (nodeState # rest) =
     (case get_entries now key (DAList.impl_of (Entries nodeState)) of
        Some r \<Rightarrow> r
      | None \<Rightarrow> get_nodes now key rest)"

definition Get :: "Time \<Rightarrow> string \<Rightarrow> Delegate \<Rightarrow> error + Entry" where
  "Get now key d = get_nodes now key (NodeStates (fsm d))"

fun exists_entries :: "Time \<Rightarrow> string \<Rightarrow> (string \<times> Entry) list \<Rightarrow> bool option" where
  "exists_entries now key [] = None"
| "exists_entries now key ((k, entry) # rest) =
     (if k = key then (if expired now entry then Some False else Some (\<not> GetArchived entry))
      else exists_entries now key rest)"

fun exists_nodes :: "Time \<Rightarrow> string \<Rightarrow> NodeState list \<Rightarrow> bool" where
  "exists_nodes now key [] = False"
| "exists_nodes now key (nodeState # rest) =
     (case exists_entries now key (DAList.impl_of (Entries nodeState)) of
        Some r \<Rightarrow> r
      | None \<Rightarrow> exists_nodes now key rest)"

definition Exists :: "Time \<Rightarrow> string \<Rightarrow> Delegate \<Rightarrow> bool" where
  "Exists now key d = exists_nodes now key (NodeStates (fsm d))"

text \<open>\<open>List\<close>; the entries of one partition come in the order of its \<open>range\<close>.\<close>

definition List_entries :: "Time \<Rightarrow> Delegate \<Rightarrow> Entry list" where
  "List_entries now d =
     concat (map (\<lambda>nodeState.
                    map snd (filter (\<lambda>(k, entry). \<not> expired now entry)
                                    (DAList.impl_of (Entries nodeState))))
                 (NodeStates (fsm d)))"

subsection \<open>Delete\<close>

text \<open>The inner loop: is there a round with \<open>k == key\<close> in a node state owned by \<open>d.me\<close>.\<close>

fun delete_hit :: "string \<Rightarrow> string \<Rightarrow> string \<Rightarrow> string list \<Rightarrow> bool" where
  "delete_hit key self nodeId [] = False"
| "delete_hit key self nodeId (k # ks) =
     (if k = key \<and> nodeId = self then True else delete_hit key self nodeId ks)"

text \<open>
  The outer loop returns at the first hit, after setting the two fields of the entry stored
  under \<open>key\<close> in place.
\<close>

fun delete_nodes :: "Time \<Rightarrow> string \<Rightarrow> string \<Rightarrow> NodeState list \<Rightarrow> NodeState list" where
  "delete_nodes now key self [] = []"
| "delete_nodes now key self (nodeState # rest) =
     (if delete_hit key self (NodeId nodeState) (map fst (DAList.impl_of (Entries nodeState)))
      then nodeState\<lparr>Entries :=
             DAList.map_entry key
               (\<lambda>entry. entry\<lparr>Archived := Some True,
                               LastUpdatedTime := Some (timestamppb_New now)\<rparr>)
               (Entries nodeState)\<rparr> # rest
      else nodeState # delete_nodes now key self rest)"

definition Delete :: "Time \<Rightarrow> string \<Rightarrow> Delegate \<Rightarrow> Delegate" where
  "Delete now key d =
     d\<lparr>fsm := (fsm d)\<lparr>NodeStates := delete_nodes now key (me d) (NodeStates (fsm d))\<rparr>\<rparr>"


subsection \<open>Notions of the specification\<close>

text \<open>P1 of the specification: no node id occurs in two node states of an FSM.\<close>

definition unique_node_ids :: "FSM \<Rightarrow> bool" where
  "unique_node_ids f = distinct (map NodeId (NodeStates f))"

text \<open>The partition an FSM holds for a node id, and the entry it holds for a node id and a key.\<close>

definition partition_of :: "FSM \<Rightarrow> string \<Rightarrow> (string, Entry) alist option" where
  "partition_of f n = map_option Entries (find (\<lambda>p. NodeId p = n) (NodeStates f))"

definition entry_at :: "FSM \<Rightarrow> string \<Rightarrow> string \<Rightarrow> Entry option" where
  "entry_at f n k = (case partition_of f n of None \<Rightarrow> None | Some es \<Rightarrow> DAList.lookup es k)"

text \<open>
  The last-updated timestamp of an entry as an instant: the nanoseconds since the Unix epoch,
  an integer that does not wrap around.
\<close>

definition lastUpdatedUnixNano :: "Entry \<Rightarrow> int" where
  "lastUpdatedUnixNano e =
     (let t = AsTime (LastUpdatedTime e) in Unix t * 1000000000 + sint (nsec t))"

text \<open>The triples (node id, key, entry) of an FSM.\<close>

definition triples :: "FSM \<Rightarrow> (string \<times> string \<times> Entry) set" where
  "triples f = {(n, k, e). \<exists>p \<in> set (NodeStates f). NodeId p = n \<and> DAList.lookup (Entries p) k = Some e}"

text \<open>The first entry for a key in partition iteration order.\<close>

definition first_entry :: "string \<Rightarrow> FSM \<Rightarrow> Entry option" where
  "first_entry k f =
     (case find (\<lambda>p. DAList.lookup (Entries p) k \<noteq> None) (NodeStates f) of
        None \<Rightarrow> None
      | Some p \<Rightarrow> DAList.lookup (Entries p) k)"

text \<open>\<open>isVisible\<close>: not archived (an absent flag is false) and not expired.\<close>

definition isVisible :: "Time \<Rightarrow> Entry \<Rightarrow> bool" where
  "isVisible now e = (\<not> GetArchived e \<and> \<not> expired now e)"

text \<open>
  The operations that change the state, and runs of them from the state \<open>newDelegate\<close>
  builds. An \<open>OpMerge\<close> carries the decoded remote FSM and the order of the rebuild.
\<close>

datatype operation =
    OpPut Time string "byte list" int64
  | OpDelete Time string
  | OpMerge "string \<Rightarrow> nat" FSM

fun apply_op :: "operation \<Rightarrow> Delegate \<Rightarrow> Delegate" where
  "apply_op (OpPut now key val expiration) d = Put now key val expiration d"
| "apply_op (OpDelete now key) d = Delete now key d"
| "apply_op (OpMerge rank remoteFSM) d = MergeRemoteState rank remoteFSM d"

definition run :: "operation list \<Rightarrow> Delegate \<Rightarrow> Delegate" where
  "run ops d = fold apply_op ops d"

text \<open>A sequence of merges, each with its own remote FSM and rebuild order.\<close>

definition merges :: "((string \<Rightarrow> nat) \<times> FSM) list \<Rightarrow> Delegate \<Rightarrow> Delegate" where
  "merges rs d = fold (\<lambda>(rank, remoteFSM). MergeRemoteState rank remoteFSM) rs d"

subsection \<open>Example states\<close>

text \<open>
  Node \<open>A\<close> holds key \<open>k\<close> in its own partition (written at second 10) and in the partition
  of \<open>B\<close> (written at second 20). A peer reports \<open>k\<close> of \<open>A\<close> at the same second 10, \<open>k\<close> of
  \<open>B\<close> at the older second 15, and a partition of a third node \<open>C\<close>.
\<close>

definition ex_meta :: NodeMeta where
  "ex_meta = \<lparr>Name = ''A'', Host = ''127.0.0.1'', Port = 3320, DiscoveryPort = 3322,
              CreationTime = None\<rparr>"

definition ex_entry :: "string \<Rightarrow> byte \<Rightarrow> int64 \<Rightarrow> Entry" where
  "ex_entry k b s = \<lparr>Key = k, Value = [b], Archived = None,
                     LastUpdatedTime = Some \<lparr>Seconds = s, Nanos = 0\<rparr>, Expiry = None\<rparr>"

definition ex_local :: Delegate where
  "ex_local =
     \<lparr>nodeMeta = ex_meta,
      fsm = \<lparr>NodeStates =
        [\<lparr>NodeId = ''A'', Entries = DAList.update ''k'' (ex_entry ''k'' 1 10) DAList.empty\<rparr>,
         \<lparr>NodeId = ''B'', Entries = DAList.update ''k'' (ex_entry ''k'' 2 20) DAList.empty\<rparr>]\<rparr>,
      me = ''A''\<rparr>"

definition ex_remote :: FSM where
  "ex_remote =
     \<lparr>NodeStates =
        [\<lparr>NodeId = ''A'', Entries = DAList.update ''k'' (ex_entry ''k'' 3 10) DAList.empty\<rparr>,
         \<lparr>NodeId = ''B'', Entries = DAList.update ''k'' (ex_entry ''k'' 4 15) DAList.empty\<rparr>,
         \<lparr>NodeId = ''C'', Entries = DAList.update ''j'' (ex_entry ''j'' 5 30) DAList.empty\<rparr>]\<rparr>"

definition ex_now :: Time where
  "ex_now = \<lparr>sec = 100, nsec = 5\<rparr>"

text \<open>
  Node \<open>A\<close> starts and puts \<open>k\<close> at 10.1 s (\<open>ex_first\<close>); it puts \<open>k\<close> again at 10.9 s
  (\<open>ex_second\<close>). A peer that pulled the state in between holds the FSM of \<open>ex_first\<close>.
\<close>

definition ex_first :: Delegate where
  "ex_first =
     run [OpPut \<lparr>sec = 10, nsec = 100000000\<rparr> ''k'' [1] 0] (newDelegate ''A'' ex_meta)"

definition ex_second :: Delegate where
  "ex_second =
     run [OpPut \<lparr>sec = 10, nsec = 100000000\<rparr> ''k'' [1] 0,
          OpPut \<lparr>sec = 10, nsec = 900000000\<rparr> ''k'' [2] 0] (newDelegate ''A'' ex_meta)"

section \<open>Properties\<close>

subsection \<open>Go maps\<close>

lemma size_zero_empty: "(if size (m :: ('k, 'v) alist) = 0 then DAList.empty else m) = m"
  by (auto simp add: size_alist_def DAList.alist_eq_iff DAList.empty.rep_eq)

lemma keys_lookup: "key \<in> fst ` set (DAList.impl_of m) \<longleftrightarrow> DAList.lookup m key \<noteq> None"
  by (simp add: DAList.lookup.rep_eq map_of_eq_None_iff)

lemma update_absent: "k \<notin> fst ` set al \<Longrightarrow> AList.update k v al = al @ [(k, v)]"
  by (induction al) auto

lemma keys_update_present:
  "DAList.lookup m k \<noteq> None \<Longrightarrow>
   fst ` set (DAList.impl_of (DAList.update k e m)) = fst ` set (DAList.impl_of m)"
  using keys_lookup [of k m] by (auto simp add: DAList.update.rep_eq dom_update)

lemma lookup_map_entry:
  "DAList.lookup (DAList.map_entry k f m) k1 =
     (if k1 = k then map_option f (DAList.lookup m k) else DAList.lookup m k1)"
  by (simp add: DAList.lookup.rep_eq DAList.map_entry.rep_eq map_of_map_entry split: option.splits)

lemma AList_map_entry_absent: "k \<notin> fst ` set xs \<Longrightarrow> AList.map_entry k f xs = xs"
  by (induction xs) auto

lemma map_entry_absent: "DAList.lookup m k = None \<Longrightarrow> DAList.map_entry k f m = m"
  by (simp add: DAList.alist_eq_iff DAList.map_entry.rep_eq DAList.lookup.rep_eq
      map_of_eq_None_iff AList_map_entry_absent)

subsection \<open>Node states found by node id\<close>

lemma find_absent: "n \<notin> set (map f ps) \<Longrightarrow> find (\<lambda>q. f q = n) ps = None"
  by (induction ps) auto

lemma find_unique:
  "distinct (map NodeId nss) \<Longrightarrow> p \<in> set nss \<Longrightarrow> find (\<lambda>q. NodeId q = NodeId p) nss = Some p"
  by (induction nss) (auto simp add: rev_image_eqI)

lemma find_map_same_id:
  "(\<And>p. NodeId (g p) = NodeId p) \<Longrightarrow>
   find (\<lambda>p. NodeId p = n) (map g nss) = map_option g (find (\<lambda>p. NodeId p = n) nss)"
  by (induction nss) auto

lemma map_other_nodes:
  "self \<notin> set (map NodeId ps) \<Longrightarrow> map (\<lambda>p. if NodeId p = self then g p else p) ps = ps"
  by (induction ps) auto

lemma find_rebuilt:
  "find (\<lambda>p. NodeId p = n) (map (\<lambda>(k, v). \<lparr>NodeId = k, Entries = v\<rparr>) xs)
   = map_option (\<lambda>v. \<lparr>NodeId = n, Entries = v\<rparr>) (map_of xs n)"
  by (induction xs) auto

subsection \<open>The order of the rebuild\<close>

lemma distinct_range_order: "distinct (map fst (range_order rank m))"
proof -
  have "mset (map fst (range_order rank m)) = mset (map fst (DAList.impl_of m))"
    by (simp add: range_order_def)
  then show ?thesis
    by (metis DAList.impl_of_distinct mset_eq_imp_distinct_iff)
qed

lemma map_of_range_order: "map_of (range_order rank m) = DAList.lookup m"
proof -
  have "set (range_order rank m) = set (DAList.impl_of m)"
    by (simp add: range_order_def)
  then show ?thesis
    using distinct_range_order [of rank m]
    by (simp add: map_of_inject_set DAList.lookup.rep_eq)
qed

text \<open>
  The parameter \<open>rank\<close> loses no behaviour of the source: whatever order a traversal of the
  map takes, some rank yields it.
\<close>

lemma position_nth:
  assumes "distinct (map fst ys)" and "i < length ys"
  shows "length (takeWhile (\<lambda>p. fst p \<noteq> fst (ys ! i)) ys) = i"
proof -
  have "takeWhile (\<lambda>p. fst p \<noteq> fst (ys ! i)) ys = take i ys"
  proof (rule takeWhile_eq_take_P_nth)
    fix j assume "j < i" "j < length ys"
    then show "fst (ys ! j) \<noteq> fst (ys ! i)"
      using assms by (simp add: distinct_conv_nth)
  next
    show "\<not> fst (ys ! i) \<noteq> fst (ys ! i)" by simp
  qed
  then show ?thesis using assms(2) by simp
qed

lemma range_order_complete:
  assumes "mset ys = mset (DAList.impl_of m)"
  shows "\<exists>rank. range_order rank m = ys"
proof -
  define rank where "rank k = length (takeWhile (\<lambda>p. fst p \<noteq> k) ys)" for k
  define f where "f = (\<lambda>(k, v :: 'a). rank k)"
  let ?xs = "sort_key f (DAList.impl_of m)"
  have dy: "distinct (map fst ys)"
    using assms by (metis DAList.impl_of_distinct mset_eq_imp_distinct_iff mset_map)
  have fy: "map f ys = [0..<length ys]"
    by (rule nth_equalityI) (simp_all add: f_def rank_def case_prod_unfold position_nth [OF dy])
  have m: "mset ?xs = mset ys" using assms by simp
  then have s: "set ?xs = set ys" by (rule mset_eq_setD)
  have "mset (map f ?xs) = mset (map f ys)" using m by (metis mset_map)
  then have dx: "distinct (map f ?xs)"
    using fy by (metis distinct_upt mset_eq_imp_distinct_iff)
  have inj: "inj_on f (set ?xs \<union> set ys)"
    using fy s by (metis distinct_map distinct_upt sup.idem)
  have "?xs = ys"
    using inj _ dx _ _ s
  proof (rule map_sorted_distinct_set_unique)
    show "sorted (map f ?xs)" by simp
    show "sorted (map f ys)" by (simp add: fy)
    show "distinct (map f ys)" by (simp add: fy)
  qed
  then show ?thesis by (auto simp add: range_order_def f_def)
qed

subsection \<open>What the merge leaves under a node id and a key\<close>

lemma lookup_index_fold:
  "distinct (map NodeId nss) \<Longrightarrow>
   DAList.lookup
     (fold (\<lambda>nodeState entries. DAList.update (NodeId nodeState) (Entries nodeState) entries) nss m) n
   = (case find (\<lambda>p. NodeId p = n) nss of
        None \<Rightarrow> DAList.lookup m n
      | Some p \<Rightarrow> Some (Entries p))"
proof (induction nss arbitrary: m)
  case Nil
  then show ?case by simp
next
  case (Cons p ps)
  have nf: "NodeId p = n \<Longrightarrow> find (\<lambda>q. NodeId q = n) ps = None"
    using Cons.prems by (intro find_absent) auto
  show ?case
    using Cons.prems nf by (simp add: Cons.IH DAList.lookup_update split: option.splits)
qed

lemma lookup_index_local:
  "distinct (map NodeId nss) \<Longrightarrow>
   DAList.lookup (index_local nss) n = map_option Entries (find (\<lambda>p. NodeId p = n) nss)"
  by (simp add: index_local_def lookup_index_fold split: option.splits)

lemma impl_of_index_fold:
  "distinct (map NodeId nss) \<Longrightarrow> set (map NodeId nss) \<inter> fst ` set (DAList.impl_of m) = {} \<Longrightarrow>
   DAList.impl_of
     (fold (\<lambda>nodeState entries. DAList.update (NodeId nodeState) (Entries nodeState) entries) nss m)
   = DAList.impl_of m @ map (\<lambda>p. (NodeId p, Entries p)) nss"
proof (induction nss arbitrary: m)
  case Nil
  then show ?case by simp
next
  case (Cons p ps)
  have a: "NodeId p \<notin> fst ` set (DAList.impl_of m)"
    using Cons.prems(2) by auto
  have u: "DAList.impl_of (DAList.update (NodeId p) (Entries p) m)
             = DAList.impl_of m @ [(NodeId p, Entries p)]"
    using a by (simp add: DAList.update.rep_eq update_absent)
  have d: "set (map NodeId ps) \<inter> fst ` set (DAList.impl_of (DAList.update (NodeId p) (Entries p) m)) = {}"
    using Cons.prems by (auto simp add: u)
  show ?case
    using Cons.prems d by (simp add: Cons.IH u)
qed

lemma impl_of_index_local:
  "distinct (map NodeId nss) \<Longrightarrow>
   DAList.impl_of (index_local nss) = map (\<lambda>p. (NodeId p, Entries p)) nss"
  by (simp add: index_local_def impl_of_index_fold DAList.empty.rep_eq)

lemma lookup_merge_step:
  "DAList.lookup (merge_step (k1, er) L) k =
     (if k = k1 then
        (case DAList.lookup L k of
           None \<Rightarrow> Some er
         | Some el \<Rightarrow> if lastUpdatedUnix el > lastUpdatedUnix er then Some el else Some er)
      else DAList.lookup L k)"
  by (simp add: merge_step_def DAList.lookup_update split: option.splits)

lemma lookup_merge_fold:
  "distinct (map fst xs) \<Longrightarrow>
   DAList.lookup (fold merge_step xs L) k =
     (case map_of xs k of
        None \<Rightarrow> DAList.lookup L k
      | Some er \<Rightarrow>
          (case DAList.lookup L k of
             None \<Rightarrow> Some er
           | Some el \<Rightarrow> if lastUpdatedUnix el > lastUpdatedUnix er then Some el else Some er))"
proof (induction xs arbitrary: L)
  case Nil
  then show ?case by simp
next
  case (Cons x xs)
  obtain k1 er where x: "x = (k1, er)" by (cases x)
  have nf: "k = k1 \<Longrightarrow> map_of xs k = None"
    using Cons.prems x by (auto simp add: map_of_eq_None_iff)
  show ?case
    using Cons.prems nf x by (simp add: Cons.IH lookup_merge_step split: option.splits)
qed

lemma lookup_merge_entries:
  "DAList.lookup (merge_entries R L) k =
     (case DAList.lookup R k of
        None \<Rightarrow> DAList.lookup L k
      | Some er \<Rightarrow>
          (case DAList.lookup L k of
             None \<Rightarrow> Some er
           | Some el \<Rightarrow> if lastUpdatedUnix el > lastUpdatedUnix er then Some el else Some er))"
  using lookup_merge_fold [of "DAList.impl_of R" L k]
  by (simp add: merge_entries_def DAList.lookup.rep_eq)

lemma lookup_merge_node:
  "DAList.lookup (merge_node r M) n =
     (if n = NodeId r then
        Some (case DAList.lookup M n of
                None \<Rightarrow> Entries r
              | Some L \<Rightarrow> merge_entries (Entries r) L)
      else DAList.lookup M n)"
  by (simp add: merge_node_def size_zero_empty DAList.lookup_update split: option.splits)

lemma lookup_merge_nodes:
  "distinct (map NodeId rss) \<Longrightarrow>
   DAList.lookup (fold merge_node rss M) n =
     (case find (\<lambda>p. NodeId p = n) rss of
        None \<Rightarrow> DAList.lookup M n
      | Some r \<Rightarrow>
          Some (case DAList.lookup M n of
                  None \<Rightarrow> Entries r
                | Some L \<Rightarrow> merge_entries (Entries r) L))"
proof (induction rss arbitrary: M)
  case Nil
  then show ?case by simp
next
  case (Cons r rs)
  have nf: "NodeId r = n \<Longrightarrow> find (\<lambda>q. NodeId q = n) rs = None"
    using Cons.prems by (intro find_absent) auto
  show ?case
    using Cons.prems nf by (simp add: Cons.IH lookup_merge_node split: option.splits)
qed

lemma partition_of_merge:
  "partition_of (fsm (MergeRemoteState rank remote d)) n
   = DAList.lookup (fold merge_node (NodeStates remote) (index_local (NodeStates (fsm d)))) n"
  by (simp add: partition_of_def MergeRemoteState_def Let_def find_rebuilt map_of_range_order
      option.map_comp comp_def option.map_ident)

lemmas ex_simps = ex_local_def ex_remote_def ex_entry_def unique_node_ids_def entry_at_def
  partition_of_def DAList.lookup_update lastUpdatedUnix_def Unix_def AsTime_def time_Unix_def

text \<open>
  C1: for a local FSM and a remote FSM that both keep node ids unique, the entry the merged
  FSM holds under a node id \<open>n\<close> and a key \<open>k\<close> is the local entry when the remote has none;
  the remote entry when the local has none; and, when both have one, the local entry if its
  whole-second Unix time is strictly greater than the remote's and the remote entry otherwise
  (so a tie yields the remote entry). A remote partition whose node id the local FSM lacks is
  taken over as it is.
\<close>

theorem MergeRemoteState_last_writer_wins:
  assumes "unique_node_ids (fsm d)" and "unique_node_ids remoteFSM"
  shows "entry_at (fsm (MergeRemoteState rank remoteFSM d)) n k =
           (case entry_at remoteFSM n k of
              None \<Rightarrow> entry_at (fsm d) n k
            | Some er \<Rightarrow>
                (case entry_at (fsm d) n k of
                   None \<Rightarrow> Some er
                 | Some el \<Rightarrow>
                     if lastUpdatedUnix el > lastUpdatedUnix er then Some el else Some er))
         \<and> (partition_of (fsm d) n = None \<longrightarrow>
              partition_of (fsm (MergeRemoteState rank remoteFSM d)) n = partition_of remoteFSM n)"
proof -
  have loc: "DAList.lookup (index_local (NodeStates (fsm d))) n = partition_of (fsm d) n"
    using assms(1) by (simp add: unique_node_ids_def lookup_index_local partition_of_def)
  have mrg: "partition_of (fsm (MergeRemoteState rank remoteFSM d)) n =
      (case partition_of remoteFSM n of
         None \<Rightarrow> partition_of (fsm d) n
       | Some R \<Rightarrow> Some (case partition_of (fsm d) n of None \<Rightarrow> R | Some L \<Rightarrow> merge_entries R L))"
  proof -
    have rem: "partition_of remoteFSM n
                 = map_option Entries (find (\<lambda>p. NodeId p = n) (NodeStates remoteFSM))"
      by (simp add: partition_of_def)
    have "partition_of (fsm (MergeRemoteState rank remoteFSM d)) n =
        (case find (\<lambda>p. NodeId p = n) (NodeStates remoteFSM) of
           None \<Rightarrow> partition_of (fsm d) n
         | Some r \<Rightarrow> Some (case partition_of (fsm d) n of
                              None \<Rightarrow> Entries r
                            | Some L \<Rightarrow> merge_entries (Entries r) L))"
      using assms(2) unfolding partition_of_merge unique_node_ids_def
      by (simp only: lookup_merge_nodes loc)
    then show ?thesis
      unfolding rem by (cases "find (\<lambda>p. NodeId p = n) (NodeStates remoteFSM)") simp_all
  qed
  show ?thesis
    by (simp add: entry_at_def mrg lookup_merge_entries split: option.splits)
qed

text \<open>
  The theorem on the example: the tie under \<open>(A, k)\<close> goes to the remote entry, the newer
  local entry under \<open>(B, k)\<close> stays, and the partition of \<open>C\<close> is adopted.
\<close>

theorem MergeRemoteState_last_writer_wins_witness:
  "unique_node_ids (fsm ex_local) \<and> unique_node_ids ex_remote
   \<and> entry_at (fsm (MergeRemoteState length ex_remote ex_local)) ''A'' ''k''
       = Some (ex_entry ''k'' 3 10)
   \<and> entry_at (fsm (MergeRemoteState length ex_remote ex_local)) ''B'' ''k''
       = Some (ex_entry ''k'' 2 20)
   \<and> partition_of (fsm ex_local) ''C'' = None
   \<and> partition_of (fsm (MergeRemoteState length ex_remote ex_local)) ''C''
       = partition_of ex_remote ''C''"
proof -
  have l: "unique_node_ids (fsm ex_local)" by (simp add: ex_simps)
  have r: "unique_node_ids ex_remote" by (simp add: ex_simps)
  have c: "partition_of (fsm ex_local) ''C'' = None" by (simp add: ex_simps)
  show ?thesis
    using l r c
      MergeRemoteState_last_writer_wins
        [OF l r, where rank = length and n = "''A''" and k = "''k''"]
      MergeRemoteState_last_writer_wins
        [OF l r, where rank = length and n = "''B''" and k = "''k''"]
      MergeRemoteState_last_writer_wins
        [OF l r, where rank = length and n = "''C''" and k = "''j''"]
    by (simp add: ex_simps)
qed

subsection \<open>Timestamps under repeated merges\<close>

lemma unique_merge: "unique_node_ids (fsm (MergeRemoteState rank remoteFSM d))"
  using distinct_range_order [of rank]
  by (simp add: unique_node_ids_def MergeRemoteState_def Let_def comp_def case_prod_unfold)

lemma merge_node_mono:
  assumes "DAList.lookup M n = Some L" and "DAList.lookup L k = Some e"
  shows "\<exists>L1 e1. DAList.lookup (merge_node r M) n = Some L1 \<and> DAList.lookup L1 k = Some e1
           \<and> lastUpdatedUnix e \<le> lastUpdatedUnix e1"
proof (cases "n = NodeId r")
  case True
  have "\<exists>e1. DAList.lookup (merge_entries (Entries r) L) k = Some e1
           \<and> lastUpdatedUnix e \<le> lastUpdatedUnix e1"
    using assms(2) by (simp add: lookup_merge_entries split: option.splits)
  then show ?thesis using True assms(1) by (simp add: lookup_merge_node)
next
  case False
  then show ?thesis using assms by (simp add: lookup_merge_node)
qed

lemma merge_nodes_mono:
  "DAList.lookup M n = Some L \<Longrightarrow> DAList.lookup L k = Some e \<Longrightarrow>
   \<exists>L1 e1. DAList.lookup (fold merge_node rss M) n = Some L1 \<and> DAList.lookup L1 k = Some e1
           \<and> lastUpdatedUnix e \<le> lastUpdatedUnix e1"
proof (induction rss arbitrary: M L e)
  case Nil
  then show ?case by simp
next
  case (Cons r rs)
  obtain L1 e1 where s: "DAList.lookup (merge_node r M) n = Some L1" "DAList.lookup L1 k = Some e1"
      "lastUpdatedUnix e \<le> lastUpdatedUnix e1"
    using merge_node_mono [OF Cons.prems] by blast
  obtain L2 e2 where t: "DAList.lookup (fold merge_node rs (merge_node r M)) n = Some L2"
      "DAList.lookup L2 k = Some e2" "lastUpdatedUnix e1 \<le> lastUpdatedUnix e2"
    using Cons.IH [OF s(1) s(2)] by blast
  show ?case using s(3) t by auto
qed

lemma MergeRemoteState_mono:
  assumes "unique_node_ids (fsm d)" and "entry_at (fsm d) n k = Some e"
  shows "\<exists>e1. entry_at (fsm (MergeRemoteState rank remoteFSM d)) n k = Some e1
           \<and> lastUpdatedUnix e \<le> lastUpdatedUnix e1"
proof -
  obtain L where L: "partition_of (fsm d) n = Some L" "DAList.lookup L k = Some e"
    using assms(2) by (auto simp add: entry_at_def split: option.splits)
  have "DAList.lookup (index_local (NodeStates (fsm d))) n = Some L"
    using assms(1) L(1) by (simp add: unique_node_ids_def lookup_index_local partition_of_def)
  from merge_nodes_mono [OF this L(2), of "NodeStates remoteFSM"]
  obtain L1 e1 where
    "DAList.lookup (fold merge_node (NodeStates remoteFSM) (index_local (NodeStates (fsm d)))) n
       = Some L1"
    "DAList.lookup L1 k = Some e1" "lastUpdatedUnix e \<le> lastUpdatedUnix e1"
    by blast
  then show ?thesis
    by (simp add: entry_at_def partition_of_merge)
qed

lemma merges_append: "merges (rsa @ rsb) d = merges rsb (merges rsa d)"
  by (simp add: merges_def)

lemma unique_merges: "unique_node_ids (fsm d) \<Longrightarrow> unique_node_ids (fsm (merges rs d))"
  unfolding merges_def
  by (induction rs arbitrary: d) (simp_all add: unique_merge case_prod_unfold)

lemma merges_mono:
  "unique_node_ids (fsm d) \<Longrightarrow> entry_at (fsm d) n k = Some e \<Longrightarrow>
   \<exists>e1. entry_at (fsm (merges rs d)) n k = Some e1 \<and> lastUpdatedUnix e \<le> lastUpdatedUnix e1"
proof (induction rs arbitrary: d e)
  case Nil
  then show ?case by (simp add: merges_def)
next
  case (Cons r rs)
  obtain rank remoteFSM where r: "r = (rank, remoteFSM)" by (cases r)
  obtain e1 where s: "entry_at (fsm (MergeRemoteState rank remoteFSM d)) n k = Some e1"
      "lastUpdatedUnix e \<le> lastUpdatedUnix e1"
    using MergeRemoteState_mono [OF Cons.prems] by blast
  obtain e2 where t: "entry_at (fsm (merges rs (MergeRemoteState rank remoteFSM d))) n k = Some e2"
      "lastUpdatedUnix e1 \<le> lastUpdatedUnix e2"
    using Cons.IH [OF unique_merge s(1)] by blast
  have "merges (r # rs) d = merges rs (MergeRemoteState rank remoteFSM d)"
    by (simp add: merges_def r)
  then show ?case using s(2) t by auto
qed

lemma NodeStates_ex_first:
  "NodeStates (fsm ex_first) =
     [\<lparr>NodeId = ''A'',
       Entries = DAList.update ''k''
         \<lparr>Key = ''k'', Value = [1], Archived = None,
          LastUpdatedTime = Some \<lparr>Seconds = 10, Nanos = 100000000\<rparr>, Expiry = None\<rparr>
         DAList.empty\<rparr>]"
  by (simp add: ex_first_def run_def Put_def newDelegate_def DAList.empty.rep_eq
      timestamppb_New_def setExpiry_def size_alist_def)

lemma NodeStates_ex_second:
  "NodeStates (fsm ex_second) =
     [\<lparr>NodeId = ''A'',
       Entries = DAList.update ''k''
         \<lparr>Key = ''k'', Value = [2], Archived = None,
          LastUpdatedTime = Some \<lparr>Seconds = 10, Nanos = 900000000\<rparr>, Expiry = None\<rparr>
         DAList.empty\<rparr>]"
  by (simp add: ex_second_def run_def Put_def newDelegate_def DAList.empty.rep_eq
      DAList.update.rep_eq timestamppb_New_def setExpiry_def size_alist_def)

text \<open>
  C2, as stated: the last-updated timestamp of an entry that a merge retains under \<open>(n, k)\<close>
  is greater than or equal to the timestamp it had before the merge. The merge compares the
  whole seconds only and installs the remote entry on a tie, so within one second the stored
  timestamp goes back: node \<open>A\<close> has put \<open>k\<close> at 10.1 s and again at 10.9 s, and merges the
  state a peer pulled in between. The entry under \<open>(A, k)\<close> is stamped 10.9 s before the
  merge and 10.1 s after it.
\<close>

theorem merge_timestamp_goes_back_counterexample:
  "entry_at (fsm ex_second) ''A'' ''k''
     = Some \<lparr>Key = ''k'', Value = [2], Archived = None,
              LastUpdatedTime = Some \<lparr>Seconds = 10, Nanos = 900000000\<rparr>, Expiry = None\<rparr>
   \<and> entry_at (fsm (MergeRemoteState length (fsm ex_first) ex_second)) ''A'' ''k''
     = Some \<lparr>Key = ''k'', Value = [1], Archived = None,
              LastUpdatedTime = Some \<lparr>Seconds = 10, Nanos = 100000000\<rparr>, Expiry = None\<rparr>
   \<and> lastUpdatedUnixNano
         \<lparr>Key = ''k'', Value = [1], Archived = None,
          LastUpdatedTime = Some \<lparr>Seconds = 10, Nanos = 100000000\<rparr>, Expiry = None\<rparr>
     < lastUpdatedUnixNano
         \<lparr>Key = ''k'', Value = [2], Archived = None,
          LastUpdatedTime = Some \<lparr>Seconds = 10, Nanos = 900000000\<rparr>, Expiry = None\<rparr>"
proof -
  have l: "partition_of (fsm ex_second) ''A''
      = Some (DAList.update ''k''
          \<lparr>Key = ''k'', Value = [2], Archived = None,
           LastUpdatedTime = Some \<lparr>Seconds = 10, Nanos = 900000000\<rparr>, Expiry = None\<rparr>
          DAList.empty)"
    by (simp add: partition_of_def NodeStates_ex_second)
  have m: "partition_of (fsm (MergeRemoteState length (fsm ex_first) ex_second)) ''A''
      = Some (merge_entries
          (DAList.update ''k''
            \<lparr>Key = ''k'', Value = [1], Archived = None,
             LastUpdatedTime = Some \<lparr>Seconds = 10, Nanos = 100000000\<rparr>, Expiry = None\<rparr>
            DAList.empty)
          (DAList.update ''k''
            \<lparr>Key = ''k'', Value = [2], Archived = None,
             LastUpdatedTime = Some \<lparr>Seconds = 10, Nanos = 900000000\<rparr>, Expiry = None\<rparr>
            DAList.empty))"
    by (simp add: partition_of_merge NodeStates_ex_first NodeStates_ex_second lookup_merge_node
        lookup_index_local)
  show ?thesis
    by (simp add: entry_at_def l m lookup_merge_entries DAList.lookup_update lastUpdatedUnix_def
        lastUpdatedUnixNano_def Unix_def AsTime_def time_Unix_def)
qed

text \<open>
  C2, amended: take a state with unique node ids and any sequence of merges, whatever the
  remote FSMs and rebuild orders are. An entry held under \<open>(n, k)\<close> at some point of the
  sequence is still held under \<open>(n, k)\<close> after any further merges, with a last-updated
  whole Unix second that is greater than or equal to the one it had.
\<close>

theorem merges_timestamp_monotone:
  assumes "unique_node_ids (fsm d)"
    and "entry_at (fsm (merges rsa d)) n k = Some e1"
  shows "\<exists>e2. entry_at (fsm (merges (rsa @ rsb) d)) n k = Some e2
           \<and> lastUpdatedUnix e1 \<le> lastUpdatedUnix e2"
  unfolding merges_append
  using merges_mono [OF unique_merges [OF assms(1)] assms(2)] .

theorem merges_timestamp_monotone_witness:
  "unique_node_ids (fsm ex_local)
   \<and> entry_at (fsm (merges [] ex_local)) ''B'' ''k'' = Some (ex_entry ''k'' 2 20)
   \<and> (\<exists>e2. entry_at (fsm (merges ([] @ [(length, ex_remote)]) ex_local)) ''B'' ''k'' = Some e2
            \<and> lastUpdatedUnix (ex_entry ''k'' 2 20) \<le> lastUpdatedUnix e2)"
proof -
  have l: "unique_node_ids (fsm ex_local)" by (simp add: ex_simps)
  have b: "entry_at (fsm (merges [] ex_local)) ''B'' ''k'' = Some (ex_entry ''k'' 2 20)"
    by (simp add: merges_def ex_simps)
  show ?thesis
    using l b merges_timestamp_monotone [OF l b, where rsb = "[(length, ex_remote)]"] by blast
qed

subsection \<open>Merging what a failed or empty decoding leaves\<close>

lemma triples_cong: "set (NodeStates f) = set (NodeStates g) \<Longrightarrow> triples f = triples g"
  by (simp add: triples_def)

text \<open>
  C7, as stated: \<open>MergeRemoteState\<close> on an input that decodes to an FSM without node
  states, in particular on bytes that fail to decode, which are taken to leave a zero FSM,
  leaves the triples of the local FSM as they were. The source drops the error of
  \<open>proto.Unmarshal\<close> and merges the message as the decoder left it, and the decoder keeps
  the node states it has read before the byte it fails on. For the 67 bytes

  \<^verbatim>\<open>0a 14 0a 01 41 12 0f 0a 01 6b 12 0a 0a 01 6b 12 01 03 22 02 08 0a\<close>
  \<^verbatim>\<open>0a 14 0a 01 42 12 0f 0a 01 6b 12 0a 0a 01 6b 12 01 04 22 02 08 0f\<close>
  \<^verbatim>\<open>0a 14 0a 01 43 12 0f 0a 01 6a 12 0a 0a 01 6a 12 01 05 22 02 08 1e\<close>
  \<^verbatim>\<open>ff\<close>

  \<open>proto.Unmarshal\<close> returns an error at the last byte, a field tag that is cut short, and
  leaves the three node states of \<open>ex_remote\<close> in the message. Merged into \<open>ex_local\<close>, they
  add a triple under \<open>(C, j)\<close> and replace the entry under \<open>(A, k)\<close>.
\<close>

theorem MergeRemoteState_failed_decode_counterexample:
  "(''C'', ''j'', ex_entry ''j'' 5 30) \<in> triples (fsm (MergeRemoteState length ex_remote ex_local))
   \<and> (''C'', ''j'', ex_entry ''j'' 5 30) \<notin> triples (fsm ex_local)
   \<and> entry_at (fsm ex_local) ''A'' ''k'' = Some (ex_entry ''k'' 1 10)
   \<and> entry_at (fsm (MergeRemoteState length ex_remote ex_local)) ''A'' ''k''
       = Some (ex_entry ''k'' 3 10)
   \<and> triples (fsm (MergeRemoteState length ex_remote ex_local)) \<noteq> triples (fsm ex_local)"
proof -
  have a: "(''C'', ''j'', ex_entry ''j'' 5 30) \<notin> triples (fsm ex_local)"
    by (simp add: triples_def ex_local_def DAList.lookup_update)
  have "partition_of (fsm (MergeRemoteState length ex_remote ex_local)) ''C''
          = Some (DAList.update ''j'' (ex_entry ''j'' 5 30) DAList.empty)"
    by (simp add: partition_of_merge lookup_merge_node lookup_index_local ex_remote_def
        ex_local_def)
  then obtain p where p: "p \<in> set (NodeStates (fsm (MergeRemoteState length ex_remote ex_local)))"
      "NodeId p = ''C''" "Entries p = DAList.update ''j'' (ex_entry ''j'' 5 30) DAList.empty"
    by (auto simp add: partition_of_def find_Some_iff in_set_conv_nth)
  then have b: "(''C'', ''j'', ex_entry ''j'' 5 30)
                  \<in> triples (fsm (MergeRemoteState length ex_remote ex_local))"
    by (auto simp add: triples_def)
  have c: "entry_at (fsm ex_local) ''A'' ''k'' = Some (ex_entry ''k'' 1 10)"
    by (simp add: ex_simps)
  have "partition_of (fsm (MergeRemoteState length ex_remote ex_local)) ''A''
          = Some (merge_entries (DAList.update ''k'' (ex_entry ''k'' 3 10) DAList.empty)
                    (DAList.update ''k'' (ex_entry ''k'' 1 10) DAList.empty))"
    by (simp add: partition_of_merge lookup_merge_node lookup_index_local ex_remote_def
        ex_local_def)
  then have d: "entry_at (fsm (MergeRemoteState length ex_remote ex_local)) ''A'' ''k''
                  = Some (ex_entry ''k'' 3 10)"
    by (simp add: entry_at_def lookup_merge_entries DAList.lookup_update lastUpdatedUnix_def
        ex_entry_def)
  from a b have "triples (fsm (MergeRemoteState length ex_remote ex_local)) \<noteq> triples (fsm ex_local)"
    by auto
  then show ?thesis using a b c d by simp
qed

text \<open>
  C7, amended: when the bytes received decode to an FSM without node states, the merge
  leaves the triples (node id, key, entry) of a local FSM with unique node ids as they were;
  the node states are the same ones, possibly in another order. Every state the delegate
  reaches has unique node ids (\<open>unique_run\<close> below). Bytes that fail to decode are covered
  when the decoder has left no node state, and not otherwise.
\<close>

theorem MergeRemoteState_empty_remote:
  assumes "unique_node_ids (fsm d)" and "NodeStates remoteFSM = []"
  shows "triples (fsm (MergeRemoteState rank remoteFSM d)) = triples (fsm d)
         \<and> mset (NodeStates (fsm (MergeRemoteState rank remoteFSM d))) = mset (NodeStates (fsm d))"
proof -
  have i: "map (\<lambda>(k, v). \<lparr>NodeId = k, Entries = v\<rparr>) (map (\<lambda>p. (NodeId p, Entries p)) nss) = nss"
    for nss :: "NodeState list"
    by (induction nss) simp_all
  have ns: "NodeStates (fsm (MergeRemoteState rank remoteFSM d))
              = map (\<lambda>(k, v). \<lparr>NodeId = k, Entries = v\<rparr>)
                  (sort_key (\<lambda>(k, v). rank k)
                     (map (\<lambda>p. (NodeId p, Entries p)) (NodeStates (fsm d))))"
    using assms
    by (simp add: MergeRemoteState_def range_order_def unique_node_ids_def impl_of_index_local)
  have p: "mset (map f (sort_key g xs)) = mset (map f xs)"
    for f :: "string \<times> (string, Entry) alist \<Rightarrow> NodeState" and g :: "_ \<Rightarrow> nat" and xs
    by simp
  have m: "mset (NodeStates (fsm (MergeRemoteState rank remoteFSM d)))
             = mset (NodeStates (fsm d))"
    unfolding ns p i ..
  from m have "set (NodeStates (fsm (MergeRemoteState rank remoteFSM d))) = set (NodeStates (fsm d))"
    by (rule mset_eq_setD)
  then have "triples (fsm (MergeRemoteState rank remoteFSM d)) = triples (fsm d)"
    by (rule triples_cong)
  then show ?thesis using m by simp
qed

theorem MergeRemoteState_empty_remote_witness:
  "unique_node_ids (fsm ex_local) \<and> NodeStates \<lparr>NodeStates = []\<rparr> = []
   \<and> triples (fsm (MergeRemoteState length \<lparr>NodeStates = []\<rparr> ex_local)) = triples (fsm ex_local)
   \<and> mset (NodeStates (fsm (MergeRemoteState length \<lparr>NodeStates = []\<rparr> ex_local)))
       = mset (NodeStates (fsm ex_local))"
proof -
  have l: "unique_node_ids (fsm ex_local)" by (simp add: ex_simps)
  have e: "NodeStates \<lparr>NodeStates = []\<rparr> = []" by simp
  show ?thesis
    using l e MergeRemoteState_empty_remote [OF l e, where rank = length] by blast
qed

subsection \<open>Unique node ids in every reachable state\<close>

lemma NodeId_put_overwrite:
  "map NodeId (fst (put_overwrite key e nss b)) = map NodeId nss"
  by (induction nss arbitrary: b) (auto simp add: case_prod_unfold Let_def)

lemma NodeId_put_insert: "map NodeId (put_insert self key e nss) = map NodeId nss"
  by (induction nss) auto

lemma NodeId_delete_nodes: "map NodeId (delete_nodes now key self nss) = map NodeId nss"
  by (induction nss) auto

lemma unique_Put: "unique_node_ids (fsm d) \<Longrightarrow> unique_node_ids (fsm (Put now key val expiration d))"
  by (simp add: unique_node_ids_def Put_def Let_def case_prod_unfold NodeId_put_overwrite
      NodeId_put_insert)

lemma unique_Delete: "unique_node_ids (fsm d) \<Longrightarrow> unique_node_ids (fsm (Delete now key d))"
  by (simp add: unique_node_ids_def Delete_def NodeId_delete_nodes)

lemma unique_apply_op: "unique_node_ids (fsm d) \<Longrightarrow> unique_node_ids (fsm (apply_op x d))"
  by (cases x) (simp_all add: unique_Put unique_Delete unique_merge)

lemma unique_run: "unique_node_ids (fsm d) \<Longrightarrow> unique_node_ids (fsm (run ops d))"
  unfolding run_def by (induction ops arbitrary: d) (simp_all add: unique_apply_op)

text \<open>
  C8: in the state \<open>newDelegate\<close> builds, and after any sequence of \<open>Put\<close>, \<open>Delete\<close> and
  \<open>MergeRemoteState\<close> from there, each node id occurs in at most one node state of the FSM.
\<close>

theorem reachable_unique_node_ids:
  "unique_node_ids (fsm (run ops (newDelegate name meta)))"
  by (rule unique_run) (simp add: unique_node_ids_def newDelegate_def)

subsection \<open>Delete\<close>

lemma delete_hit_iff: "delete_hit key self nodeId ks \<longleftrightarrow> key \<in> set ks \<and> nodeId = self"
  by (induction ks) auto

lemma delete_nodes_unique:
  "distinct (map NodeId nss) \<Longrightarrow>
   delete_nodes now key self nss =
     map (\<lambda>p. if NodeId p = self
              then p\<lparr>Entries := DAList.map_entry key
                     (\<lambda>entry. entry\<lparr>Archived := Some True,
                                     LastUpdatedTime := Some (timestamppb_New now)\<rparr>)
                     (Entries p)\<rparr>
              else p) nss"
proof (induction nss)
  case Nil
  then show ?case by simp
next
  case (Cons p ps)
  show ?case
  proof (cases "NodeId p = self")
    case True
    then have "self \<notin> set (map NodeId ps)" using Cons.prems by auto
    then have r: "map (\<lambda>p. if NodeId p = self
              then p\<lparr>Entries := DAList.map_entry key
                     (\<lambda>entry. entry\<lparr>Archived := Some True,
                                     LastUpdatedTime := Some (timestamppb_New now)\<rparr>)
                     (Entries p)\<rparr>
              else p) ps = ps" by (rule map_other_nodes)
    have s: "delete_nodes now key self ps = ps"
      using Cons.IH Cons.prems r by simp
    show ?thesis
      using True r s
      by (simp add: delete_hit_iff keys_lookup map_entry_absent)
  next
    case False
    then show ?thesis using Cons by (simp add: delete_hit_iff)
  qed
qed

lemma partition_of_Delete:
  assumes "unique_node_ids (fsm d)"
  shows "partition_of (fsm (Delete now k d)) n =
           (if n = me d
            then map_option (DAList.map_entry k
                     (\<lambda>entry. entry\<lparr>Archived := Some True,
                                     LastUpdatedTime := Some (timestamppb_New now)\<rparr>))
                   (partition_of (fsm d) n)
            else partition_of (fsm d) n)"
proof (cases "find (\<lambda>p. NodeId p = n) (NodeStates (fsm d))")
  case None
  then show ?thesis
    using assms
    by (auto simp add: partition_of_def Delete_def unique_node_ids_def delete_nodes_unique
        find_map_same_id)
next
  case (Some p)
  then have "NodeId p = n" by (auto simp add: find_Some_iff)
  then show ?thesis
    using assms Some
    by (auto simp add: partition_of_def Delete_def unique_node_ids_def delete_nodes_unique
        find_map_same_id)
qed

lemma Delete_noop:
  assumes "unique_node_ids (fsm d)" and "entry_at (fsm d) (me d) k = None"
  shows "Delete now k d = d"
proof -
  have "p \<in> set (NodeStates (fsm d)) \<Longrightarrow> NodeId p = me d \<Longrightarrow> DAList.lookup (Entries p) k = None" for p
  proof -
    assume a: "p \<in> set (NodeStates (fsm d))" "NodeId p = me d"
    have "find (\<lambda>q. NodeId q = me d) (NodeStates (fsm d)) = Some p"
      using find_unique [of "NodeStates (fsm d)" p] a assms(1) by (simp add: unique_node_ids_def)
    then show ?thesis using assms(2) by (simp add: entry_at_def partition_of_def)
  qed
  then have "map (\<lambda>p. if NodeId p = me d
              then p\<lparr>Entries := DAList.map_entry k
                     (\<lambda>entry. entry\<lparr>Archived := Some True,
                                     LastUpdatedTime := Some (timestamppb_New now)\<rparr>)
                     (Entries p)\<rparr>
              else p) (NodeStates (fsm d)) = NodeStates (fsm d)"
    by (intro map_idI) (simp add: map_entry_absent)
  then show ?thesis
    using assms(1) by (simp add: Delete_def unique_node_ids_def delete_nodes_unique)
qed

text \<open>
  C4: \<open>Delete(k)\<close> on the node \<open>me d\<close>, in a state with unique node ids. If the node's own
  partition holds an entry for \<open>k\<close>, that entry afterwards is the same entry with
  \<open>archived = true\<close> and the timestamp of the call as its last-updated time; if it holds none,
  the whole delegate state is unchanged, also when a peer partition holds \<open>k\<close>. Every other
  entry, under another node id or another key, is unchanged, the partitions of the other
  nodes are unchanged, and so is the list of node ids.
\<close>

theorem Delete_local_ownership:
  assumes "unique_node_ids (fsm d)"
  shows "(case entry_at (fsm d) (me d) k of
            None \<Rightarrow> Delete now k d = d
          | Some e \<Rightarrow>
              entry_at (fsm (Delete now k d)) (me d) k
                = Some (e\<lparr>Archived := Some True, LastUpdatedTime := Some (timestamppb_New now)\<rparr>))
         \<and> (\<forall>n k1. (n, k1) \<noteq> (me d, k) \<longrightarrow>
               entry_at (fsm (Delete now k d)) n k1 = entry_at (fsm d) n k1)
         \<and> (\<forall>n. n \<noteq> me d \<longrightarrow> partition_of (fsm (Delete now k d)) n = partition_of (fsm d) n)
         \<and> map NodeId (NodeStates (fsm (Delete now k d))) = map NodeId (NodeStates (fsm d))"
proof -
  have 1: "entry_at (fsm d) (me d) k = None \<Longrightarrow> Delete now k d = d"
    using assms by (rule Delete_noop)
  have 2: "entry_at (fsm d) (me d) k = Some e \<Longrightarrow>
      entry_at (fsm (Delete now k d)) (me d) k
        = Some (e\<lparr>Archived := Some True, LastUpdatedTime := Some (timestamppb_New now)\<rparr>)" for e
    by (auto simp add: entry_at_def partition_of_Delete [OF assms] lookup_map_entry
        split: option.splits)
  have 3: "(n, k1) \<noteq> (me d, k) \<Longrightarrow>
      entry_at (fsm (Delete now k d)) n k1 = entry_at (fsm d) n k1" for n k1
    by (auto simp add: entry_at_def partition_of_Delete [OF assms] lookup_map_entry
        split: option.splits)
  have 4: "n \<noteq> me d \<Longrightarrow> partition_of (fsm (Delete now k d)) n = partition_of (fsm d) n" for n
    by (simp add: partition_of_Delete [OF assms])
  have 5: "map NodeId (NodeStates (fsm (Delete now k d))) = map NodeId (NodeStates (fsm d))"
    by (simp add: Delete_def NodeId_delete_nodes)
  show ?thesis
    using 1 2 3 4 5 by (simp split: option.splits)
qed

text \<open>
  On the example, node \<open>A\<close> deletes \<open>k\<close>: its own entry becomes a tombstone, the entry of \<open>B\<close>
  stays; and deleting \<open>j\<close>, which \<open>A\<close> does not own, changes nothing.
\<close>

theorem Delete_local_ownership_witness:
  "unique_node_ids (fsm ex_local)
   \<and> entry_at (fsm (Delete ex_now ''k'' ex_local)) ''A'' ''k''
       = Some ((ex_entry ''k'' 1 10)\<lparr>Archived := Some True,
                                      LastUpdatedTime := Some \<lparr>Seconds = 100, Nanos = 5\<rparr>\<rparr>)
   \<and> entry_at (fsm (Delete ex_now ''k'' ex_local)) ''B'' ''k'' = Some (ex_entry ''k'' 2 20)
   \<and> Delete ex_now ''j'' ex_local = ex_local"
proof -
  have l: "unique_node_ids (fsm ex_local)" by (simp add: ex_simps)
  show ?thesis
    using l Delete_local_ownership [OF l, where k = "''k''" and now = ex_now]
      Delete_local_ownership [OF l, where k = "''j''" and now = ex_now]
    by (simp add: ex_simps ex_now_def timestamppb_New_def)
qed

subsection \<open>Get and Exists\<close>

lemma get_entries_eq:
  "get_entries now key xs =
     map_option (\<lambda>entry. if expired now entry then Inl ErrKeyNotFound else Inr entry) (map_of xs key)"
  by (induction xs) auto

lemma get_nodes_eq:
  "get_nodes now key nss =
     (case find (\<lambda>p. DAList.lookup (Entries p) key \<noteq> None) nss of
        None \<Rightarrow> Inl ErrKeyNotFound
      | Some p \<Rightarrow>
          (case DAList.lookup (Entries p) key of
             None \<Rightarrow> Inl ErrKeyNotFound
           | Some entry \<Rightarrow> if expired now entry then Inl ErrKeyNotFound else Inr entry))"
  by (induction nss) (auto simp add: get_entries_eq DAList.lookup.rep_eq split: option.splits)

lemma Get_eq:
  "Get now key d =
     (case first_entry key (fsm d) of
        None \<Rightarrow> Inl ErrKeyNotFound
      | Some entry \<Rightarrow> if expired now entry then Inl ErrKeyNotFound else Inr entry)"
  by (simp add: Get_def get_nodes_eq first_entry_def split: option.splits)

lemma first_entry_None_iff:
  "first_entry key f = None \<longleftrightarrow> (\<forall>p \<in> set (NodeStates f). DAList.lookup (Entries p) key = None)"
  by (auto simp add: first_entry_def find_None_iff split: option.splits dest: find_Some_iff [THEN iffD1])

text \<open>
  C5: \<open>Get(k)\<close> fails with \<open>ErrKeyNotFound\<close> exactly when no partition holds an entry for \<open>k\<close>
  or the first entry for \<open>k\<close> in the order of the node states is expired; otherwise it
  returns that first entry as it is stored, whether it is archived or not. Expired is what
  the function \<open>expired\<close> of the source says (see C3).
\<close>

theorem Get_first_match:
  "(Get now key d = Inl ErrKeyNotFound \<longleftrightarrow>
      (\<forall>p \<in> set (NodeStates (fsm d)). DAList.lookup (Entries p) key = None)
      \<or> (\<exists>entry. first_entry key (fsm d) = Some entry \<and> expired now entry))
   \<and> (\<forall>entry. first_entry key (fsm d) = Some entry \<and> \<not> expired now entry
         \<longrightarrow> Get now key d = Inr entry)"
  by (auto simp add: Get_eq first_entry_None_iff [symmetric] split: option.splits)

theorem Get_first_match_witness:
  "Get ex_now ''k'' ex_local = Inr (ex_entry ''k'' 1 10)
   \<and> Get ex_now ''j'' ex_local = Inl ErrKeyNotFound"
  using Get_first_match [where now = ex_now and key = "''k''" and d = ex_local]
    Get_first_match [where now = ex_now and key = "''j''" and d = ex_local]
  by (simp add: first_entry_def expired_def ex_simps)

lemma exists_entries_eq:
  "exists_entries now key xs =
     map_option (\<lambda>entry. if expired now entry then False else \<not> GetArchived entry) (map_of xs key)"
  by (induction xs) auto

lemma exists_nodes_eq:
  "exists_nodes now key nss =
     (case find (\<lambda>p. DAList.lookup (Entries p) key \<noteq> None) nss of
        None \<Rightarrow> False
      | Some p \<Rightarrow>
          (case DAList.lookup (Entries p) key of
             None \<Rightarrow> False
           | Some entry \<Rightarrow> if expired now entry then False else \<not> GetArchived entry))"
  by (induction nss) (auto simp add: exists_entries_eq DAList.lookup.rep_eq split: option.splits)

text \<open>
  C6: \<open>Exists(k)\<close> is \<open>isVisible\<close> of the first entry for \<open>k\<close> in the order of the node
  states, that is not archived and not expired, and false when no partition holds an entry
  for \<open>k\<close>. Expired is what the function \<open>expired\<close> of the source says (see C3).
\<close>

theorem Exists_first_match:
  "Exists now key d =
     (case first_entry key (fsm d) of None \<Rightarrow> False | Some entry \<Rightarrow> isVisible now entry)"
  by (auto simp add: Exists_def exists_nodes_eq first_entry_def isVisible_def split: option.splits)

theorem Exists_first_match_witness:
  "Exists ex_now ''k'' ex_local \<and> \<not> Exists ex_now ''j'' ex_local"
  using Exists_first_match [where now = ex_now and key = "''k''" and d = ex_local]
    Exists_first_match [where now = ex_now and key = "''j''" and d = ex_local]
  by (simp add: first_entry_def isVisible_def GetArchived_def expired_def ex_simps)

subsection \<open>Put on a key held by several partitions\<close>

lemma put_hit_iff: "put_hit key ks \<longleftrightarrow> key \<in> set ks"
  by (induction ks) auto

lemma put_overwrite_eq:
  "put_overwrite key e nss b =
     (map (\<lambda>p. if DAList.lookup (Entries p) key \<noteq> None
               then p\<lparr>Entries := DAList.update key e (Entries p)\<rparr> else p) nss,
      b \<or> (\<exists>p \<in> set nss. DAList.lookup (Entries p) key \<noteq> None))"
  by (induction nss arbitrary: b) (auto simp add: put_hit_iff keys_lookup)

lemma Put_existing:
  assumes "\<exists>p \<in> set (NodeStates (fsm d)). DAList.lookup (Entries p) k \<noteq> None"
  shows "NodeStates (fsm (Put now k v expiration d)) =
           map (\<lambda>p. if DAList.lookup (Entries p) k \<noteq> None
                     then p\<lparr>Entries := DAList.update k
                            \<lparr>Key = k, Value = v, Archived = None,
                             LastUpdatedTime = Some (timestamppb_New now),
                             Expiry = setExpiry expiration\<rparr> (Entries p)\<rparr>
                     else p)
               (NodeStates (fsm d))"
  using assms by (simp add: Put_def Let_def put_overwrite_eq)

text \<open>
  C10: when two or more partitions hold the key \<open>k\<close>, \<open>Put(k, v, expiration)\<close> stores in
  each of them, under \<open>k\<close>, the same new entry (value \<open>v\<close>, no archived flag, the timestamp of
  the call, the expiry \<open>setExpiry\<close> gives) and leaves every partition without \<open>k\<close> as it was;
  the set of keys of every partition, the local node's included, is what it was, so no entry
  is inserted.
\<close>

theorem Put_overwrites_every_partition:
  assumes "2 \<le> length (filter (\<lambda>p. DAList.lookup (Entries p) k \<noteq> None) (NodeStates (fsm d)))"
  shows "NodeStates (fsm (Put now k v expiration d)) =
           map (\<lambda>p. if DAList.lookup (Entries p) k \<noteq> None
                     then p\<lparr>Entries := DAList.update k
                            \<lparr>Key = k, Value = v, Archived = None,
                             LastUpdatedTime = Some (timestamppb_New now),
                             Expiry = setExpiry expiration\<rparr> (Entries p)\<rparr>
                     else p)
               (NodeStates (fsm d))
         \<and> map (\<lambda>p. (NodeId p, set (map fst (DAList.impl_of (Entries p)))))
               (NodeStates (fsm (Put now k v expiration d)))
             = map (\<lambda>p. (NodeId p, set (map fst (DAList.impl_of (Entries p)))))
                 (NodeStates (fsm d))"
proof -
  have "filter (\<lambda>p. DAList.lookup (Entries p) k \<noteq> None) (NodeStates (fsm d)) \<noteq> []"
    using assms by auto
  then have ex: "\<exists>p \<in> set (NodeStates (fsm d)). DAList.lookup (Entries p) k \<noteq> None"
    by (simp add: filter_empty_conv)
  show ?thesis
    unfolding Put_existing [OF ex]
    by (simp add: keys_update_present comp_def)
qed

theorem Put_overwrites_every_partition_witness:
  "2 \<le> length (filter (\<lambda>p. DAList.lookup (Entries p) ''k'' \<noteq> None) (NodeStates (fsm ex_local)))
   \<and> entry_at (fsm (Put ex_now ''k'' [9] 0 ex_local)) ''A'' ''k''
       = Some \<lparr>Key = ''k'', Value = [9], Archived = None,
                LastUpdatedTime = Some \<lparr>Seconds = 100, Nanos = 5\<rparr>, Expiry = None\<rparr>
   \<and> entry_at (fsm (Put ex_now ''k'' [9] 0 ex_local)) ''B'' ''k''
       = Some \<lparr>Key = ''k'', Value = [9], Archived = None,
                LastUpdatedTime = Some \<lparr>Seconds = 100, Nanos = 5\<rparr>, Expiry = None\<rparr>"
proof -
  have h: "2 \<le> length (filter (\<lambda>p. DAList.lookup (Entries p) ''k'' \<noteq> None)
                           (NodeStates (fsm ex_local)))"
    by (simp add: ex_simps)
  show ?thesis
    using h Put_overwrites_every_partition
      [OF h, where now = ex_now and v = "[9]" and expiration = 0]
    by (simp add: ex_simps ex_now_def timestamppb_New_def setExpiry_def)
qed

subsection \<open>Expiry\<close>

text \<open>
  C3, as stated: an entry is expired exactly when its expiry is present and the current
  Unix second is strictly greater than the Unix second of its last update. The source
  returns false before the comparison when that second is zero or negative, so the
  statement fails for an entry with an expiry whose last update is the epoch itself.
\<close>

theorem expired_unguarded_counterexample:
  "\<not> (expired \<lparr>sec = 100, nsec = 0\<rparr>
         \<lparr>Key = ''k'', Value = [], Archived = None,
          LastUpdatedTime = Some \<lparr>Seconds = 0, Nanos = 0\<rparr>,
          Expiry = Some \<lparr>DSeconds = 1, DNanos = 0\<rparr>\<rparr>
       \<longleftrightarrow>
       (Expiry \<lparr>Key = ''k'', Value = [], Archived = None,
                LastUpdatedTime = Some \<lparr>Seconds = 0, Nanos = 0\<rparr>,
                Expiry = Some \<lparr>DSeconds = 1, DNanos = 0\<rparr>\<rparr> \<noteq> None
        \<and> Unix \<lparr>sec = 100, nsec = 0\<rparr>
            > Unix (AsTime (LastUpdatedTime
                 \<lparr>Key = ''k'', Value = [], Archived = None,
                  LastUpdatedTime = Some \<lparr>Seconds = 0, Nanos = 0\<rparr>,
                  Expiry = Some \<lparr>DSeconds = 1, DNanos = 0\<rparr>\<rparr>))))"
  by (simp add: expired_def Unix_def AsTime_def time_Unix_def)

text \<open>
  C3, amended: an entry is expired exactly when its expiry is present, the Unix second of
  its last update is positive, and the current Unix second is strictly greater than it.
  The stored expiry duration takes no part in the deadline.
\<close>

theorem expired_iff:
  "expired now e \<longleftrightarrow>
     Expiry e \<noteq> None
     \<and> 0 < Unix (AsTime (LastUpdatedTime e))
     \<and> Unix (AsTime (LastUpdatedTime e)) < Unix now"
  by (auto simp add: expired_def Let_def)

subsection \<open>NodeMeta\<close>

text \<open>
  C9: \<open>NodeMeta(limit)\<close> is claimed to return the serialized metadata cut to at most
  \<open>limit\<close> bytes. The source returns the whole serialization whatever the limit is.
\<close>

theorem NodeMeta_whole_serialization:
  "Delegate_NodeMeta marshal limit d = marshal (nodeMeta d)"
  by (simp add: Delegate_NodeMeta_def)

end
